theory Spec2Isabelle
  imports Complex_Main "HOL-Library.Log_Nat"
begin

section \<open>Numbers and dates of the host language\<close>

subsection \<open>Binary64 floating point\<close>

text \<open>
  \<^verbatim>\<open>Task.progress\<close> is a Python \<^verbatim>\<open>float\<close>. A finite double is a rational number, so
  progress values are modelled as \<^typ>\<open>rat\<close> and every floating-point operation of the source
  is the exact rational operation followed by rounding to the nearest double, ties to the even
  significand (\<open>fl\<close>). Only the normal range is modelled (no subnormals, no overflow): the
  source divides a count by a larger count and multiplies by 100.

  \<open>round_half_even\<close> rounds a rational to the nearest integer, ties to even.
  \<open>ilog2 q\<close> is the exponent \<open>e\<close> with \<open>2^e \<le> q < 2^(e+1)\<close> for positive \<open>q\<close>.
\<close>

definition round_half_even :: "rat \<Rightarrow> int" where
  "round_half_even q =
     (let f = \<lfloor>q\<rfloor>; r = q - of_int f
      in if r < 1 / 2 then f else if 1 / 2 < r then f + 1 else if even f then f else f + 1)"

definition two_pow :: "int \<Rightarrow> rat" where
  "two_pow k = (if 0 \<le> k then 2 ^ nat k else 1 / 2 ^ nat (- k))"

definition ilog2 :: "rat \<Rightarrow> int" where
  "ilog2 q =
     (if 1 \<le> q then int (floorlog 2 (nat \<lfloor>q\<rfloor>)) - 1
      else let k = - int (floorlog 2 (nat \<lfloor>1 / q\<rfloor>))
           in if two_pow (k + 1) \<le> q then k + 1 else k)"

definition fl :: "rat \<Rightarrow> rat" where
  "fl q =
     (if q = 0 then 0
      else let a = \<bar>q\<bar>; u = two_pow (ilog2 a - 52);
               m = of_int (round_half_even (a / u)) * u
           in if q < 0 then - m else m)"

text \<open>
  Python's \<^verbatim>\<open>round(x, 1)\<close> on a float: the exact value of the double \<open>x\<close> is rounded to one
  decimal place (ties to even, which only happen when \<open>10 * x\<close> is exactly a half-integer), and
  the decimal is converted back to the nearest double.
\<close>

definition py_round1 :: "rat \<Rightarrow> rat" where
  "py_round1 x = fl (of_int (round_half_even (10 * x)) / 10)"

subsection \<open>Dates\<close>

text \<open>
  A \<^verbatim>\<open>datetime.date\<close> is modelled by its proleptic Gregorian ordinal
  (\<^verbatim>\<open>date.toordinal()\<close>: day 1 is 0001-01-01; the last date, 9999-12-31, is day 3652059).
  \<open>ymd2ord\<close> is the ordinal of a civil date, as the standard library computes it.
\<close>

type_synonym date = int

definition is_leap :: "int \<Rightarrow> bool" where
  "is_leap year = (year mod 4 = 0 \<and> (year mod 100 \<noteq> 0 \<or> year mod 400 = 0))"

definition days_before_year :: "int \<Rightarrow> int" where
  "days_before_year year = (let y = year - 1 in y * 365 + y div 4 - y div 100 + y div 400)"

definition days_before_month :: "int \<Rightarrow> int \<Rightarrow> int" where
  "days_before_month year month =
     [0, 31, 59, 90, 120, 151, 181, 212, 243, 273, 304, 334] ! nat (month - 1)
       + (if 2 < month \<and> is_leap year then 1 else 0)"

definition ymd2ord :: "int \<Rightarrow> int \<Rightarrow> int \<Rightarrow> date" where
  "ymd2ord year month day = days_before_year year + days_before_month year month + day"

definition DEFAULT_START_DATE :: date where
  "DEFAULT_START_DATE = ymd2ord 2025 8 25"

definition MAXORDINAL :: int where
  "MAXORDINAL = 3652059"

subsection \<open>Errors\<close>

text \<open>
  \<open>BadRequest\<close> is \<^verbatim>\<open>abort(400)\<close> and \<open>NotFound\<close> is \<^verbatim>\<open>abort(404)\<close> (also from
  \<^verbatim>\<open>get_or_404\<close>), each with its description; the other errors are exceptions that escape the
  handler.
\<close>

datatype error =
    BadRequest string
  | NotFound string
  | IntegrityError
  | AttributeError
  | ObjectDeletedError
  | OverflowError

text \<open>
  \<^verbatim>\<open>d + timedelta(days=n)\<close>: the constructor of the difference raises when the magnitude of
  \<open>n\<close> exceeds 999999999, and the sum raises when it leaves the calendar.
\<close>

definition date_add :: "date \<Rightarrow> int \<Rightarrow> error + date" where
  "date_add d n =
     (if 999999999 < \<bar>n\<bar> then Inl OverflowError
      else if 0 < d + n \<and> d + n \<le> MAXORDINAL then Inr (d + n)
      else Inl OverflowError)"

section \<open>Entity store\<close>

text \<open>
  The three tables of the application. The columns \<^verbatim>\<open>description\<close>, \<^verbatim>\<open>priority\<close>,
  \<^verbatim>\<open>created_at\<close> and \<^verbatim>\<open>updated_at\<close> of a task are left out: the engine never reads them.
  A table is the list of its rows in insertion order, which is the order in which an unordered
  query returns them. Strings are ASCII.
\<close>

record task =
  t_id :: int
  slug :: string
  title :: string
  status :: string
  week :: "int option"
  start_date :: "date option"
  end_date :: "date option"
  started_at :: "date option"
  completed_at :: "date option"
  progress :: rat

record subtask =
  st_id :: int
  st_task_id :: int
  st_title :: string
  st_done :: bool

record dependency =
  d_id :: int
  d_task_id :: int
  d_depends_on_id :: int

record db =
  tasks :: "task list"
  subtasks :: "subtask list"
  dependencies :: "dependency list"

definition empty_db :: db where
  "empty_db = \<lparr>tasks = [], subtasks = [], dependencies = []\<rparr>"

text \<open>
  \<^verbatim>\<open>Task.query.get(i)\<close> and its siblings. A task object of the source is the row with its
  primary key: reading an attribute reads the row, and an assignment to an attribute is
  \<open>modify_task\<close> on that row (queries flush pending changes first, so they see it).
\<close>

definition get_task :: "db \<Rightarrow> int \<Rightarrow> task option" where
  "get_task s i = find (\<lambda>t. t_id t = i) (tasks s)"

definition get_subtask :: "db \<Rightarrow> int \<Rightarrow> subtask option" where
  "get_subtask s i = find (\<lambda>x. st_id x = i) (subtasks s)"

definition get_dependency :: "db \<Rightarrow> int \<Rightarrow> dependency option" where
  "get_dependency s i = find (\<lambda>d. d_id d = i) (dependencies s)"

definition modify_task :: "int \<Rightarrow> (task \<Rightarrow> task) \<Rightarrow> db \<Rightarrow> db" where
  "modify_task i f s = s\<lparr>tasks := map (\<lambda>t. if t_id t = i then f t else t) (tasks s)\<rparr>"

definition set_status :: "int \<Rightarrow> string \<Rightarrow> db \<Rightarrow> db" where
  "set_status i v s = modify_task i (\<lambda>t. t\<lparr>status := v\<rparr>) s"

text \<open>
  An integer primary key of SQLite without \<^verbatim>\<open>AUTOINCREMENT\<close>: one more than the largest key
  in the table, 1 in an empty table.
\<close>

definition next_id :: "int list \<Rightarrow> int" where
  "next_id ids = foldr max ids 0 + 1"

section \<open>Helpers of the source\<close>

definition is_space :: "char \<Rightarrow> bool" where
  "is_space c = (let n = (of_char c :: nat) in (9 \<le> n \<and> n \<le> 13) \<or> (28 \<le> n \<and> n \<le> 32))"

definition strip :: "string \<Rightarrow> string" where
  "strip s = rev (dropWhile is_space (rev (dropWhile is_space s)))"

definition lower :: "string \<Rightarrow> string" where
  "lower s = map (\<lambda>c. let n = (of_char c :: nat)
                      in if 65 \<le> n \<and> n \<le> 90 then char_of (n + 32) else c) s"

definition is_slug_char :: "char \<Rightarrow> bool" where
  "is_slug_char c = (let n = (of_char c :: nat)
                     in (97 \<le> n \<and> n \<le> 122) \<or> (48 \<le> n \<and> n \<le> 57))"

text \<open>\<^verbatim>\<open>re.sub(r"[^a-z0-9]+", "-", s)\<close>: every maximal run of other characters becomes one dash.\<close>

fun sub_dash :: "bool \<Rightarrow> string \<Rightarrow> string" where
  "sub_dash in_run [] = []"
| "sub_dash in_run (c # cs) =
     (if is_slug_char c then c # sub_dash False cs
      else if in_run then sub_dash True cs
      else CHR ''-'' # sub_dash True cs)"

definition slugify :: "string \<Rightarrow> string" where
  "slugify s =
     (let s1 = lower s;
          s2 = sub_dash False s1;
          s3 = rev (dropWhile (\<lambda>c. c = CHR ''-'') (rev (dropWhile (\<lambda>c. c = CHR ''-'') s2)))
      in if s3 = [] then ''task'' else s3)"

definition compute_task_progress :: "db \<Rightarrow> task \<Rightarrow> rat" where
  "compute_task_progress s t =
     (let total = length (filter (\<lambda>x. st_task_id x = t_id t) (subtasks s))
      in if total = 0 then (if status t = ''done'' then 100 else 0)
         else let done = length (filter (\<lambda>x. st_task_id x = t_id t \<and> st_done x) (subtasks s))
              in py_round1 (fl (100 * fl (of_nat done / of_nat total))))"

definition has_blocking_dependencies :: "db \<Rightarrow> task \<Rightarrow> bool" where
  "has_blocking_dependencies s t =
     (let deps = filter (\<lambda>d. d_task_id d = t_id t) (dependencies s)
      in if deps = [] then False
         else let dep_task_ids = map d_depends_on_id deps
              in if dep_task_ids = [] then False
                 else let q = filter (\<lambda>x. t_id x \<in> set dep_task_ids) (tasks s)
                      in list_ex (\<lambda>x. status x \<noteq> ''done'') q)"

text \<open>
  \<open>enforce_blocking_status i s\<close> is \<^verbatim>\<open>enforce_blocking_status(t)\<close> for the task object \<open>t\<close> with
  key \<open>i\<close>. Every caller but one passes an object it has just loaded; the one that may pass
  \<^verbatim>\<open>None\<close> (\<open>api_delete_dependency\<close>) raises there, which is modelled at that call.
\<close>

definition enforce_blocking_status :: "int \<Rightarrow> db \<Rightarrow> db" where
  "enforce_blocking_status i s =
     (case get_task s i of
        None \<Rightarrow> s
      | Some t \<Rightarrow>
          if status t \<noteq> ''done'' \<and> has_blocking_dependencies s t then set_status i ''blocked'' s
          else if status t = ''blocked'' \<and> \<not> has_blocking_dependencies s t
          then set_status i (if 0 < progress t then ''in_progress'' else ''todo'') s
          else s)"

text \<open>The statement \<^verbatim>\<open>t.progress = compute_task_progress(t)\<close>, which most handlers run.\<close>

definition recompute_progress :: "int \<Rightarrow> db \<Rightarrow> db" where
  "recompute_progress i s =
     (case get_task s i of
        None \<Rightarrow> s
      | Some t \<Rightarrow> modify_task i (\<lambda>x. x\<lparr>progress := compute_task_progress s t\<rparr>) s)"

text \<open>The body of the loop of \<^verbatim>\<open>update_dependents_status\<close>, for one dependency edge.\<close>

definition update_dependent :: "dependency \<Rightarrow> db \<Rightarrow> db" where
  "update_dependent dep s =
     (case get_task s (d_task_id dep) of
        None \<Rightarrow> s
      | Some dt \<Rightarrow>
          let p = compute_task_progress s dt;
              s1 = modify_task (t_id dt) (\<lambda>x. x\<lparr>progress := p\<rparr>) s
          in if has_blocking_dependencies s1 dt
             then (if status dt \<noteq> ''done'' then set_status (t_id dt) ''blocked'' s1 else s1)
             else if status dt = ''blocked''
             then set_status (t_id dt)
                    (if p = 100 then ''done'' else if 0 < p then ''in_progress'' else ''todo'') s1
             else s1)"

definition update_dependents_status :: "int \<Rightarrow> db \<Rightarrow> db" where
  "update_dependents_status changed_task_id s =
     fold update_dependent
       (filter (\<lambda>d. d_depends_on_id d = changed_task_id) (dependencies s)) s"

text \<open>
  \<open>set_dates_for_week\<close> returns the task with its dates set, or the error that one of the two
  date additions raises (the request then fails and nothing of it is stored).
\<close>

definition set_dates_for_week :: "task \<Rightarrow> date \<Rightarrow> error + task" where
  "set_dates_for_week t start =
     (case week t of
        None \<Rightarrow> Inr t
      | Some w \<Rightarrow>
          if w \<noteq> 0 \<and> 0 < w
          then let offset = (w - 1) * 7
               in (case date_add start offset of
                     Inl e \<Rightarrow> Inl e
                   | Inr sd \<Rightarrow>
                       (case date_add sd 6 of
                          Inl e \<Rightarrow> Inl e
                        | Inr ed \<Rightarrow> Inr (t\<lparr>start_date := Some sd, end_date := Some ed\<rparr>)))
          else Inr t)"

section \<open>Request handlers\<close>

text \<open>
  A handler takes the committed store and the parsed request and returns the store that is
  committed when the request ends, with the response or the error. An error ends the
  request, and whatever was written after the last \<^verbatim>\<open>commit\<close> is rolled back when the session
  is removed: the store returned with an error is the last committed one. SQLite does not
  enforce the foreign keys of the tables. The date of \<^verbatim>\<open>date.today()\<close> is a parameter.

  The body of a request is taken as parsed: a text field that is absent or \<^verbatim>\<open>null\<close> is the
  empty string, an absent number is 0 (what \<^verbatim>\<open>data.get(k) or d\<close> gives), and the optional fields
  of the edit request are \<open>None\<close> when the key is absent.
\<close>

datatype response =
    TaskResponse task
  | SubtaskResponse subtask
  | SubtaskTaskResponse subtask task
  | TaskOptResponse "task option"
  | DependencyResponse dependency
  | OkResponse

text \<open>\<^verbatim>\<open>jsonify(task=t.as_dict())\<close> after the last commit reads the row of \<open>t\<close> again.\<close>

definition task_response :: "db \<Rightarrow> int \<Rightarrow> error + response" where
  "task_response s i =
     (case get_task s i of None \<Rightarrow> Inl ObjectDeletedError | Some t \<Rightarrow> Inr (TaskResponse t))"

definition set_subtasks_done :: "int \<Rightarrow> bool \<Rightarrow> db \<Rightarrow> db" where
  "set_subtasks_done i b s =
     s\<lparr>subtasks := map (\<lambda>x. if st_task_id x = i then x\<lparr>st_done := b\<rparr> else x) (subtasks s)\<rparr>"

definition unless_set :: "date option \<Rightarrow> date \<Rightarrow> date option" where
  "unless_set field today = (case field of None \<Rightarrow> Some today | Some d \<Rightarrow> Some d)"

definition api_tasks :: "db \<Rightarrow> string \<Rightarrow> string \<Rightarrow> int \<Rightarrow> db \<times> (error + response)" where
  "api_tasks s req_title req_status req_week =
     (let title' = strip req_title
      in if title' = [] then (s, Inl (BadRequest ''title is required''))
         else
           (case set_dates_for_week
                   \<lparr>t_id = next_id (map t_id (tasks s)), slug = slugify title', title = title',
                    status = (if req_status = [] then ''todo'' else req_status),
                    week = Some req_week, start_date = None, end_date = None,
                    started_at = None, completed_at = None, progress = 0\<rparr>
                   DEFAULT_START_DATE of
              Inl e \<Rightarrow> (s, Inl e)
            | Inr t \<Rightarrow>
                if slug t \<in> set (map slug (tasks s)) then (s, Inl IntegrityError)
                else
                  let s1 = s\<lparr>tasks := tasks s @ [t]\<rparr>;
                      s2 = recompute_progress (t_id t) s1;
                      s3 = enforce_blocking_status (t_id t) s2
                  in (s3, task_response s3 (t_id t))))"

definition api_update_task_status ::
  "db \<Rightarrow> date \<Rightarrow> int \<Rightarrow> string \<Rightarrow> db \<times> (error + response)" where
  "api_update_task_status s today task_id new_status =
     (case get_task s task_id of
        None \<Rightarrow> (s, Inl (NotFound []))
      | Some t \<Rightarrow>
          if new_status \<notin> set [''todo'', ''in_progress'', ''done'']
          then (s, Inl (BadRequest ''invalid status''))
          else if new_status = ''done'' \<and> has_blocking_dependencies s t
          then (s, Inl (BadRequest ''Task has incomplete dependencies''))
          else
            let s1 =
                  (if new_status = ''done''
                   then modify_task task_id
                          (\<lambda>x. x\<lparr>status := ''done'',
                                 completed_at := unless_set (completed_at x) today,
                                 started_at := unless_set (started_at x) today\<rparr>)
                          (set_subtasks_done task_id True s)
                   else if new_status = ''todo''
                   then modify_task task_id
                          (\<lambda>x. x\<lparr>status := ''todo'', completed_at := None\<rparr>)
                          (set_subtasks_done task_id False s)
                   else modify_task task_id
                          (\<lambda>x. x\<lparr>status := ''in_progress'',
                                 started_at := unless_set (started_at x) today\<rparr>) s);
                s2 = recompute_progress task_id s1;
                s3 = enforce_blocking_status task_id s2;
                s4 = update_dependents_status task_id s3
            in (s4, task_response s4 task_id))"

definition api_edit_task ::
  "db \<Rightarrow> int \<Rightarrow> string option \<Rightarrow> int option \<Rightarrow> db \<times> (error + response)" where
  "api_edit_task s task_id req_title req_week =
     (case get_task s task_id of
        None \<Rightarrow> (s, Inl (NotFound []))
      | Some t \<Rightarrow>
          let t1 = (case req_title of
                      None \<Rightarrow> t
                    | Some x \<Rightarrow> t\<lparr>title := strip x, slug := slugify (strip x)\<rparr>)
          in (case (case req_week of
                      None \<Rightarrow> Inr t1
                    | Some w \<Rightarrow> set_dates_for_week (t1\<lparr>week := Some w\<rparr>) DEFAULT_START_DATE) of
                Inl e \<Rightarrow> (s, Inl e)
              | Inr t2 \<Rightarrow>
                  let s2 = modify_task task_id (\<lambda>y. t2) s
                  in if req_title \<noteq> None \<and>
                        list_ex (\<lambda>v. t_id v \<noteq> task_id \<and> slug v = slug t2) (tasks s2)
                     then (s, Inl IntegrityError)
                     else
                       let s3 = recompute_progress task_id s2;
                           s4 = enforce_blocking_status task_id s3
                       in (s4, task_response s4 task_id)))"

definition api_delete_task :: "db \<Rightarrow> int \<Rightarrow> db \<times> (error + response)" where
  "api_delete_task s task_id =
     (case get_task s task_id of
        None \<Rightarrow> (s, Inl (NotFound []))
      | Some t \<Rightarrow>
          let deps = filter (\<lambda>d. d_depends_on_id d = task_id) (dependencies s);
              dep_task_ids = map d_task_id deps;
              s1 = s\<lparr>tasks := filter (\<lambda>x. t_id x \<noteq> task_id) (tasks s),
                     subtasks := filter (\<lambda>x. st_task_id x \<noteq> task_id) (subtasks s),
                     dependencies :=
                       filter (\<lambda>d. d_depends_on_id d \<noteq> task_id \<and> d_task_id d \<noteq> task_id)
                         (dependencies s)\<rparr>;
              s2 = fold (\<lambda>dep_task_id x.
                           enforce_blocking_status dep_task_id
                             (recompute_progress dep_task_id x)) dep_task_ids s1
          in (s2, Inr OkResponse))"

definition api_create_subtask ::
  "db \<Rightarrow> date \<Rightarrow> int \<Rightarrow> string \<Rightarrow> db \<times> (error + response)" where
  "api_create_subtask s today task_id req_title =
     (let title' = strip req_title
      in if task_id = 0 \<or> title' = []
         then (s, Inl (BadRequest ''task_id and title are required''))
         else
           (case get_task s task_id of
             None \<Rightarrow> (s, Inl (NotFound []))
           | Some t \<Rightarrow>
               let st = \<lparr>st_id = next_id (map st_id (subtasks s)), st_task_id = t_id t,
                         st_title = title', st_done = False\<rparr>;
                   s1 = s\<lparr>subtasks := subtasks s @ [st]\<rparr>;
                   s2 = recompute_progress task_id s1;
                   s3 = modify_task task_id
                          (\<lambda>x. if status x = ''done'' \<and> progress x < 100
                                then x\<lparr>status := ''in_progress'', completed_at := None\<rparr>
                                else x) s2;
                   s4 = modify_task task_id
                          (\<lambda>x. if 0 < progress x \<and> started_at x = None
                                then x\<lparr>started_at := Some today\<rparr>
                                else x) s3;
                   s5 = enforce_blocking_status task_id s4
               in (s5, Inr (SubtaskResponse st))))"

definition api_toggle_subtask :: "db \<Rightarrow> date \<Rightarrow> int \<Rightarrow> db \<times> (error + response)" where
  "api_toggle_subtask s today subtask_id =
     (case get_subtask s subtask_id of
        None \<Rightarrow> (s, Inl (NotFound []))
      | Some st \<Rightarrow>
          (case get_task s (st_task_id st) of
             None \<Rightarrow> (s, Inl (NotFound ''Parent task not found''))
           | Some t \<Rightarrow>
               if has_blocking_dependencies s t
               then (s, Inl (BadRequest
                       ''Task is blocked by dependencies; cannot toggle subtasks''))
               else
                 let s1 = s\<lparr>subtasks :=
                              map (\<lambda>x. if st_id x = subtask_id
                                        then x\<lparr>st_done := \<not> st_done x\<rparr> else x) (subtasks s)\<rparr>;
                     s2 = recompute_progress (t_id t) s1;
                     blocking = has_blocking_dependencies s2 t;
                     s3 = modify_task (t_id t)
                            (\<lambda>x. if progress x = 100 \<and> \<not> blocking
                                  then x\<lparr>status := ''done'',
                                         completed_at := unless_set (completed_at x) today,
                                         started_at := unless_set (started_at x) today\<rparr>
                                  else if 0 < progress x \<and> status x \<noteq> ''done''
                                  then x\<lparr>status := ''in_progress'',
                                         started_at := unless_set (started_at x) today,
                                         completed_at := None\<rparr>
                                  else if \<not> blocking
                                  then x\<lparr>status := ''todo'', completed_at := None\<rparr>
                                  else x) s2;
                     s4 = enforce_blocking_status (t_id t) s3;
                     s5 = update_dependents_status (t_id t) s4
                 in (s5,
                     case get_subtask s5 subtask_id of
                       None \<Rightarrow> Inl ObjectDeletedError
                     | Some st' \<Rightarrow>
                         (case get_task s5 (t_id t) of
                            None \<Rightarrow> Inl ObjectDeletedError
                          | Some t' \<Rightarrow> Inr (SubtaskTaskResponse st' t')))))"

definition api_delete_subtask :: "db \<Rightarrow> date \<Rightarrow> int \<Rightarrow> db \<times> (error + response)" where
  "api_delete_subtask s today subtask_id =
     (case get_subtask s subtask_id of
        None \<Rightarrow> (s, Inl (NotFound []))
      | Some st \<Rightarrow>
          (case get_task s (st_task_id st) of
             None \<Rightarrow>
               (s\<lparr>subtasks := filter (\<lambda>x. st_id x \<noteq> subtask_id) (subtasks s)\<rparr>,
                Inr (TaskOptResponse None))
           | Some t \<Rightarrow>
               if has_blocking_dependencies s t
               then (s, Inl (BadRequest
                       ''Task is blocked by dependencies; cannot delete subtask''))
               else
                 let s1 = s\<lparr>subtasks := filter (\<lambda>x. st_id x \<noteq> subtask_id) (subtasks s)\<rparr>;
                     s2 = recompute_progress (t_id t) s1;
                     blocking = has_blocking_dependencies s2 t;
                     s3 = modify_task (t_id t)
                            (\<lambda>x. if progress x = 100 \<and> \<not> blocking
                                  then x\<lparr>status := ''done'',
                                         completed_at := unless_set (completed_at x) today\<rparr>
                                  else
                                    let x1 = (if status x = ''done'' \<and> progress x < 100
                                              then x\<lparr>status := (if 0 < progress x
                                                                  then ''in_progress''
                                                                  else ''todo''),
                                                      completed_at := None\<rparr>
                                              else x)
                                    in if 0 < progress x1 \<and> started_at x1 = None
                                       then x1\<lparr>started_at := Some today\<rparr>
                                       else x1) s2;
                     s4 = enforce_blocking_status (t_id t) s3
                 in (s4,
                     case get_task s4 (t_id t) of
                       None \<Rightarrow> Inl ObjectDeletedError
                     | Some t' \<Rightarrow> Inr (TaskOptResponse (Some t')))))"

definition api_add_dependency :: "db \<Rightarrow> int \<Rightarrow> int \<Rightarrow> db \<times> (error + response)" where
  "api_add_dependency s task_id depends_on_id =
     (if task_id = 0 \<or> depends_on_id = 0 \<or> task_id = depends_on_id
      then (s, Inl (BadRequest ''invalid dependency''))
      else
        case find (\<lambda>d. d_task_id d = task_id \<and> d_depends_on_id d = depends_on_id)
               (dependencies s) of
          Some exists \<Rightarrow> (s, Inr (DependencyResponse exists))
        | None \<Rightarrow>
            let dep = \<lparr>d_id = next_id (map d_id (dependencies s)), d_task_id = task_id,
                       d_depends_on_id = depends_on_id\<rparr>;
                s1 = s\<lparr>dependencies := dependencies s @ [dep]\<rparr>
            in (case get_task s1 task_id of
                  None \<Rightarrow> (s1, Inl (NotFound []))
                | Some t \<Rightarrow>
                    (enforce_blocking_status task_id s1, Inr (DependencyResponse dep))))"

definition api_delete_dependency :: "db \<Rightarrow> int \<Rightarrow> db \<times> (error + response)" where
  "api_delete_dependency s dep_id =
     (case get_dependency s dep_id of
        None \<Rightarrow> (s, Inl (NotFound []))
      | Some dep \<Rightarrow>
          let s1 = s\<lparr>dependencies := filter (\<lambda>d. d_id d \<noteq> dep_id) (dependencies s)\<rparr>
          in (case get_task s1 (d_task_id dep) of
                None \<Rightarrow> (s1, Inl AttributeError)
              | Some t \<Rightarrow> (enforce_blocking_status (d_task_id dep) s1, Inr OkResponse)))"

text \<open>The public mutation operations, and the stores they reach from the empty one.\<close>

datatype request =
    CreateTask string string int
  | UpdateTaskStatus int string
  | EditTask int "string option" "int option"
  | DeleteTask int
  | CreateSubtask int string
  | ToggleSubtask int
  | DeleteSubtask int
  | AddDependency int int
  | DeleteDependency int

fun handle :: "date \<Rightarrow> request \<Rightarrow> db \<Rightarrow> db \<times> (error + response)" where
  "handle today (CreateTask req_title req_status req_week) s = api_tasks s req_title req_status req_week"
| "handle today (UpdateTaskStatus task_id new_status) s =
     api_update_task_status s today task_id new_status"
| "handle today (EditTask task_id req_title req_week) s = api_edit_task s task_id req_title req_week"
| "handle today (DeleteTask task_id) s = api_delete_task s task_id"
| "handle today (CreateSubtask task_id req_title) s = api_create_subtask s today task_id req_title"
| "handle today (ToggleSubtask subtask_id) s = api_toggle_subtask s today subtask_id"
| "handle today (DeleteSubtask subtask_id) s = api_delete_subtask s today subtask_id"
| "handle today (AddDependency task_id depends_on_id) s = api_add_dependency s task_id depends_on_id"
| "handle today (DeleteDependency dep_id) s = api_delete_dependency s dep_id"

fun run :: "(date \<times> request) list \<Rightarrow> db \<Rightarrow> db" where
  "run [] s = s"
| "run ((today, r) # rs) s = run rs (fst (handle today r s))"

section \<open>Properties stated by the specification\<close>

text \<open>
  The specification's condition for a blocked task, in its own words: the task has at least one
  dependency edge whose target task's status is not done.
\<close>

definition unmet_dependency :: "db \<Rightarrow> task \<Rightarrow> bool" where
  "unmet_dependency s t =
     list_ex (\<lambda>d. d_task_id d = t_id t \<and>
                  list_ex (\<lambda>u. t_id u = d_depends_on_id d \<and> status u \<noteq> ''done'') (tasks s))
       (dependencies s)"

definition blocked_iff_unmet :: "db \<Rightarrow> task \<Rightarrow> bool" where
  "blocked_iff_unmet s t =
     ((status t = ''blocked'') = (unmet_dependency s t \<and> status t \<noteq> ''done''))"

definition blocked_invariant :: "db \<Rightarrow> bool" where
  "blocked_invariant s = list_all (blocked_iff_unmet s) (tasks s)"

text \<open>
  The specification's formula for the progress of a task with subtasks,
  \<^verbatim>\<open>round(100 * done_count / N, 1)\<close>, as Python evaluates it: the product of the two integers
  is exact and the quotient is rounded to a double once.
\<close>

definition spec_progress :: "nat \<Rightarrow> nat \<Rightarrow> rat" where
  "spec_progress done_count n = py_round1 (fl (100 * of_nat done_count / of_nat n))"

definition edge_pairs :: "db \<Rightarrow> (int \<times> int) list" where
  "edge_pairs s = map (\<lambda>d. (d_task_id d, d_depends_on_id d)) (dependencies s)"

section \<open>Example stores\<close>

definition ex_today :: date where
  "ex_today = ymd2ord 2025 9 1"

definition ex_task :: "int \<Rightarrow> string \<Rightarrow> rat \<Rightarrow> task" where
  "ex_task i st p =
     \<lparr>t_id = i, slug = ''t'', title = ''t'', status = st, week = Some 0, start_date = None,
      end_date = None, started_at = None, completed_at = None, progress = p\<rparr>"

text \<open>
  Three tasks are created, C (1), B (2) and A (3). B gets one subtask, which is toggled done, and
  is then set back to in progress; B is made to depend on C and A on B; at last C is completed.
\<close>

definition ex_requests :: "(date \<times> request) list" where
  "ex_requests =
     [(ex_today, CreateTask ''C'' [] 0),
      (ex_today, CreateTask ''B'' [] 0),
      (ex_today, CreateTask ''A'' [] 0),
      (ex_today, CreateSubtask 2 ''s''),
      (ex_today, ToggleSubtask 1),
      (ex_today, UpdateTaskStatus 2 ''in_progress''),
      (ex_today, AddDependency 2 1),
      (ex_today, AddDependency 3 2),
      (ex_today, UpdateTaskStatus 1 ''done'')]"

text \<open>Task 3 depends on task 2, which depends on task 1; task 1 is done.\<close>

definition ex_chain :: db where
  "ex_chain =
     \<lparr>tasks = [ex_task 1 ''done'' 100, ex_task 2 ''blocked'' 0, ex_task 3 ''blocked'' 0],
      subtasks = [],
      dependencies = [\<lparr>d_id = 1, d_task_id = 2, d_depends_on_id = 1\<rparr>,
                      \<lparr>d_id = 2, d_task_id = 3, d_depends_on_id = 2\<rparr>]\<rparr>"

text \<open>Task 2 depends on task 1, which is not done.\<close>

definition ex_blocked :: db where
  "ex_blocked =
     \<lparr>tasks = [ex_task 1 ''todo'' 0, ex_task 2 ''todo'' 0],
      subtasks = [],
      dependencies = [\<lparr>d_id = 1, d_task_id = 2, d_depends_on_id = 1\<rparr>]\<rparr>"

text \<open>Task 2 has one edge, to a task 7 that does not exist.\<close>

definition ex_dangling :: db where
  "ex_dangling =
     \<lparr>tasks = [ex_task 1 ''todo'' 0, ex_task 2 ''todo'' 0],
      subtasks = [],
      dependencies = [\<lparr>d_id = 1, d_task_id = 2, d_depends_on_id = 7\<rparr>]\<rparr>"

text \<open>
  Task 2 is blocked by task 1 while its only subtask is done; task 1 has just been completed.
  Both timestamps of task 2 are null.
\<close>

definition ex_promote :: db where
  "ex_promote =
     \<lparr>tasks = [ex_task 1 ''done'' 100, ex_task 2 ''blocked'' 100],
      subtasks = [\<lparr>st_id = 1, st_task_id = 2, st_title = ''s'', st_done = True\<rparr>],
      dependencies = [\<lparr>d_id = 1, d_task_id = 2, d_depends_on_id = 1\<rparr>]\<rparr>"

text \<open>
  A task in progress with one subtask done and one open, whose \<^verbatim>\<open>started_at\<close> is null: a row
  that was there when the column was added to the table.
\<close>

definition ex_legacy :: db where
  "ex_legacy =
     \<lparr>tasks = [ex_task 1 ''in_progress'' 50],
      subtasks = [\<lparr>st_id = 1, st_task_id = 1, st_title = ''a'', st_done = True\<rparr>,
                  \<lparr>st_id = 2, st_task_id = 1, st_title = ''b'', st_done = False\<rparr>],
      dependencies = []\<rparr>"

text \<open>A task with 80 subtasks, of which the first 23 are done.\<close>

definition ex_eighty :: db where
  "ex_eighty =
     \<lparr>tasks = [ex_task 1 ''in_progress'' 0],
      subtasks = map (\<lambda>k. \<lparr>st_id = int k + 1, st_task_id = 1, st_title = ''s'',
                            st_done = (k < 23)\<rparr>) [0..<80],
      dependencies = []\<rparr>"

section \<open>Auxiliary lemmas\<close>

subsection \<open>The rounding model\<close>

text \<open>
  For positive \<open>q\<close> the value \<open>fl q\<close> is an integer significand of 53 bits times a power of
  two, and it is within half a unit in the last place of \<open>q\<close>.
\<close>

lemma two_pow_Suc: "two_pow (k + 1) = 2 * two_pow k"
proof (cases "0 \<le> k")
  case True
  then show ?thesis by (simp add: two_pow_def nat_add_distrib)
next
  case False
  then have "nat (- k) = Suc (nat (- (k + 1)))" by simp
  with False show ?thesis by (simp add: two_pow_def)
qed

lemma two_pow_pos: "0 < two_pow k"
  by (simp add: two_pow_def)

lemma nat_floor_bounds:
  fixes r :: rat
  assumes "1 \<le> r"
  defines "n \<equiv> nat \<lfloor>r\<rfloor>"
  shows "0 < n" and "2 ^ (floorlog 2 n - 1) \<le> r" and "r < 2 ^ floorlog 2 n"
proof -
  have fl1: "1 \<le> \<lfloor>r\<rfloor>" using assms(1) by simp
  then show n0: "0 < n" by (simp add: n_def)
  have b: "2 ^ (floorlog 2 n - 1) \<le> n \<and> n < 2 ^ floorlog 2 n"
    using floorlog_bounds[of n 2] n0 by simp
  have nr: "rat_of_nat n = of_int \<lfloor>r\<rfloor>" using fl1 by (simp add: n_def)
  have "rat_of_nat (2 ^ (floorlog 2 n - 1)) \<le> rat_of_nat n"
    using b by (simp only: of_nat_le_iff)
  also have "\<dots> \<le> r" by (simp add: nr)
  finally show "2 ^ (floorlog 2 n - 1) \<le> r" by simp
  have "n + 1 \<le> 2 ^ floorlog 2 n" using b by simp
  then have "rat_of_nat (n + 1) \<le> rat_of_nat (2 ^ floorlog 2 n)"
    by (simp only: of_nat_le_iff)
  moreover have "r < rat_of_nat (n + 1)"
    using nr by simp linarith
  ultimately show "r < 2 ^ floorlog 2 n" by simp
qed

lemma ilog2_bounds:
  assumes "0 < q"
  shows "two_pow (ilog2 q) \<le> q \<and> q < two_pow (ilog2 q + 1)"
proof (cases "1 \<le> q")
  case True
  let ?L = "floorlog 2 (nat \<lfloor>q\<rfloor>)"
  have L: "0 < ?L" using nat_floor_bounds(1)[OF True] by (simp add: floorlog_def)
  have "ilog2 q = int ?L - 1" using True by (simp add: ilog2_def)
  moreover have "two_pow (int ?L - 1) = 2 ^ (?L - 1)" using L by (simp add: two_pow_def nat_diff_distrib)
  moreover have "two_pow (int ?L - 1 + 1) = 2 ^ ?L" by (simp add: two_pow_def)
  ultimately show ?thesis
    using nat_floor_bounds(2,3)[OF True] by simp
next
  case False
  let ?r = "1 / q"
  let ?L = "floorlog 2 (nat \<lfloor>?r\<rfloor>)"
  let ?k = "- int ?L"
  have r1: "1 \<le> ?r" using False assms by simp
  have L: "0 < ?L" using nat_floor_bounds(1)[OF r1] by (simp add: floorlog_def)
  have lo: "2 ^ (?L - 1) \<le> ?r" and hi: "?r < 2 ^ ?L"
    using nat_floor_bounds(2,3)[OF r1] by simp_all
  have k: "two_pow ?k = 1 / 2 ^ ?L" using L by (simp add: two_pow_def)
  have k1: "two_pow (?k + 1) = 1 / 2 ^ (?L - 1)"
  proof -
    have "nat (int ?L - 1) = ?L - 1" by simp
    then show ?thesis using L by (simp add: two_pow_def)
  qed
  have below: "two_pow ?k < q"
  proof -
    have "1 < q * 2 ^ ?L" using hi assms by (simp add: field_simps)
    then show ?thesis unfolding k using assms by (simp add: field_simps)
  qed
  have above: "q \<le> two_pow (?k + 1)"
  proof -
    have "q * 2 ^ (?L - 1) \<le> 1" using lo assms by (simp add: field_simps)
    then show ?thesis unfolding k1 by (simp add: field_simps)
  qed
  show ?thesis
  proof (cases "two_pow (?k + 1) \<le> q")
    case True
    then have eq: "ilog2 q = ?k + 1" using False by (simp add: ilog2_def Let_def)
    have "q = two_pow (?k + 1)" using True above by simp
    moreover have "two_pow (?k + 1) < two_pow (?k + 1 + 1)"
      using two_pow_Suc[of "?k + 1"] two_pow_pos[of "?k + 1"] by simp
    ultimately show ?thesis unfolding eq by simp
  next
    case F2: False
    then have eq: "ilog2 q = ?k" using False by (simp add: ilog2_def Let_def)
    show ?thesis unfolding eq using below F2 by simp
  qed
qed

lemma two_pow_powi: "two_pow k = 2 powi k"
  by (simp add: two_pow_def power_int_def inverse_eq_divide power_one_over)

lemma two_pow_add: "two_pow (a + b) = two_pow a * two_pow b"
  by (simp add: two_pow_powi power_int_add)

lemma round_half_even_error: "\<bar>of_int (round_half_even x) - x\<bar> \<le> 1 / 2"
proof -
  have "of_int \<lfloor>x\<rfloor> \<le> x" "x < of_int \<lfloor>x\<rfloor> + 1"
    by linarith+
  then show ?thesis
    by (auto simp: round_half_even_def Let_def abs_le_iff)
qed

lemma round_half_even_range:
  "\<lfloor>x\<rfloor> \<le> round_half_even x \<and> round_half_even x \<le> \<lfloor>x\<rfloor> + 1"
  by (simp add: round_half_even_def Let_def)

lemma fl_significand:
  assumes "0 < q"
  shows "\<exists>m. fl q = of_int m * two_pow (ilog2 q - 52) \<and> 2 ^ 52 \<le> m \<and> m \<le> 2 ^ 53"
proof -
  let ?u = "two_pow (ilog2 q - 52)"
  let ?x = "q / ?u"
  have u: "0 < ?u" by (rule two_pow_pos)
  have t: "two_pow 52 = 2 ^ 52" "two_pow 53 = 2 ^ 53"
    by (simp_all add: two_pow_def)
  have e: "two_pow (ilog2 q) = 2 ^ 52 * ?u"
    using two_pow_add[of 52 "ilog2 q - 52"] by (simp add: t)
  have e1: "two_pow (ilog2 q + 1) = 2 ^ 53 * ?u"
    using two_pow_add[of 53 "ilog2 q - 52"] by (simp add: t add.commute)
  have lo: "2 ^ 52 \<le> ?x" and hi: "?x < 2 ^ 53"
    using ilog2_bounds[OF assms] u unfolding e e1 by (simp_all add: field_simps)
  have "(2::int) ^ 52 \<le> \<lfloor>?x\<rfloor>"
    using lo by (simp add: le_floor_iff)
  moreover have "\<lfloor>?x\<rfloor> < (2::int) ^ 53"
    using hi by (simp add: floor_less_iff)
  ultimately have "2 ^ 52 \<le> round_half_even ?x \<and> round_half_even ?x \<le> 2 ^ 53"
    using round_half_even_range[of ?x] by linarith
  moreover have "fl q = of_int (round_half_even ?x) * ?u"
    using assms by (simp add: fl_def Let_def)
  ultimately show ?thesis by blast
qed

lemma fl_error:
  assumes "0 < q"
  shows "\<bar>fl q - q\<bar> \<le> two_pow (ilog2 q - 52) / 2"
proof -
  let ?u = "two_pow (ilog2 q - 52)"
  let ?x = "q / ?u"
  have u: "0 < ?u" by (rule two_pow_pos)
  have "fl q - q = (of_int (round_half_even ?x) - ?x) * ?u"
    using assms u by (simp add: fl_def Let_def field_simps)
  then have "\<bar>fl q - q\<bar> = \<bar>of_int (round_half_even ?x) - ?x\<bar> * ?u"
    using u by (simp add: abs_mult)
  also have "\<dots> \<le> (1 / 2) * ?u"
    using round_half_even_error[of ?x] u by (intro mult_right_mono) simp_all
  finally show ?thesis by simp
qed

subsection \<open>Progress at the extremes\<close>

lemma fl_one_hundred: "fl 1 = 1" "fl 100 = 100" "py_round1 100 = 100" "py_round1 0 = 0" "fl 0 = 0"
  by code_simp+

lemma progress_all_done:
  assumes "filter (\<lambda>x. st_task_id x = t_id t) (subtasks s) \<noteq> []"
    and "\<forall>x \<in> set (subtasks s). st_task_id x = t_id t \<longrightarrow> st_done x"
  shows "compute_task_progress s t = 100"
proof -
  let ?n = "length (filter (\<lambda>x. st_task_id x = t_id t) (subtasks s))"
  have "filter (\<lambda>x. st_task_id x = t_id t \<and> st_done x) (subtasks s)
          = filter (\<lambda>x. st_task_id x = t_id t) (subtasks s)"
    using assms(2) by (intro filter_cong) auto
  moreover have "0 < ?n" using assms(1) by simp
  ultimately show ?thesis
    by (simp add: compute_task_progress_def Let_def fl_one_hundred)
qed

lemma progress_none_done:
  assumes "\<forall>x \<in> set (subtasks s). st_task_id x = t_id t \<longrightarrow> \<not> st_done x"
    and "filter (\<lambda>x. st_task_id x = t_id t) (subtasks s) \<noteq> []"
  shows "compute_task_progress s t = 0"
proof -
  have "filter (\<lambda>x. st_task_id x = t_id t \<and> st_done x) (subtasks s) = []"
    using assms(1) by (auto simp: filter_empty_conv)
  then show ?thesis
    using assms(2) by (simp add: compute_task_progress_def Let_def fl_one_hundred)
qed

subsection \<open>Lookups and the Dependency Checker\<close>

lemma has_blocking_iff_unmet: "has_blocking_dependencies s t = unmet_dependency s t"
  by (auto simp: has_blocking_dependencies_def unmet_dependency_def Let_def list_ex_iff
      filter_empty_conv)

lemma get_task_SomeD: "get_task s i = Some t \<Longrightarrow> t \<in> set (tasks s) \<and> t_id t = i"
  by (auto simp: get_task_def find_Some_iff)

lemma get_task_None_iff: "get_task s i = None \<longleftrightarrow> (\<forall>t \<in> set (tasks s). t_id t \<noteq> i)"
  by (auto simp: get_task_def find_None_iff)

subsection \<open>What the state transformers leave alone\<close>

lemma modify_task_sel [simp]:
  "tasks (modify_task i f s) = map (\<lambda>t. if t_id t = i then f t else t) (tasks s)"
  "subtasks (modify_task i f s) = subtasks s"
  "dependencies (modify_task i f s) = dependencies s"
  by (simp_all add: modify_task_def)

lemma set_status_sel [simp]:
  "tasks (set_status i v s) = map (\<lambda>t. if t_id t = i then t\<lparr>status := v\<rparr> else t) (tasks s)"
  "subtasks (set_status i v s) = subtasks s"
  "dependencies (set_status i v s) = dependencies s"
  by (simp_all add: set_status_def)

lemma recompute_progress_sel [simp]:
  "subtasks (recompute_progress i s) = subtasks s"
  "dependencies (recompute_progress i s) = dependencies s"
  by (simp_all add: recompute_progress_def split: option.splits)

lemma enforce_blocking_status_sel [simp]:
  "subtasks (enforce_blocking_status i s) = subtasks s"
  "dependencies (enforce_blocking_status i s) = dependencies s"
  by (simp_all add: enforce_blocking_status_def split: option.splits)

lemma update_dependent_sel [simp]:
  "subtasks (update_dependent dep s) = subtasks s"
  "dependencies (update_dependent dep s) = dependencies s"
  by (simp_all add: update_dependent_def Let_def split: option.splits)

lemma fold_update_dependent_sel [simp]:
  "subtasks (fold update_dependent deps s) = subtasks s"
  "dependencies (fold update_dependent deps s) = dependencies s"
  by (induction deps arbitrary: s) simp_all

lemma update_dependents_status_sel [simp]:
  "subtasks (update_dependents_status c s) = subtasks s"
  "dependencies (update_dependents_status c s) = dependencies s"
  by (simp_all add: update_dependents_status_def)

subsection \<open>The cascade, row by row\<close>

lemma list_all2_map_same: "list_all2 P xs (map f xs) = (\<forall>x \<in> set xs. P x (f x))"
  by (simp add: list_all2_map2 list_all2_same)

lemma update_dependent_rel:
  "list_all2 (\<lambda>a b. (t_id a \<noteq> d_task_id dep \<longrightarrow> b = a) \<and>
                     b = a\<lparr>status := status b, progress := progress b\<rparr>)
     (tasks s) (tasks (update_dependent dep s))"
proof (cases "get_task s (d_task_id dep)")
  case None
  then show ?thesis
    by (simp add: update_dependent_def list_all2_same)
next
  case (Some dt)
  then have "t_id dt = d_task_id dep"
    by (simp add: get_task_SomeD)
  with Some show ?thesis
    by (simp add: update_dependent_def Let_def list_all2_map_same o_def)
qed

lemma fold_update_dependent_rel:
  "list_all2 (\<lambda>a b. (t_id a \<notin> d_task_id ` set deps \<longrightarrow> b = a) \<and>
                     b = a\<lparr>status := status b, progress := progress b\<rparr>)
     (tasks s) (tasks (fold update_dependent deps s))"
proof (induction deps arbitrary: s)
  case Nil
  show ?case by (simp add: list_all2_same)
next
  case (Cons dep deps)
  let ?R1 = "\<lambda>a b. (t_id a \<noteq> d_task_id dep \<longrightarrow> b = a) \<and>
                     b = a\<lparr>status := status b, progress := progress b\<rparr>"
  let ?R2 = "\<lambda>a b. (t_id a \<notin> d_task_id ` set deps \<longrightarrow> b = a) \<and>
                     b = a\<lparr>status := status b, progress := progress b\<rparr>"
  let ?R = "\<lambda>a b. (t_id a \<notin> d_task_id ` set (dep # deps) \<longrightarrow> b = a) \<and>
                     b = a\<lparr>status := status b, progress := progress b\<rparr>"
  have step: "?R a c" if "?R1 a b" and "?R2 b c" for a b c :: task
  proof -
    have ab: "b = a\<lparr>status := status b, progress := progress b\<rparr>" using that by simp
    have bc: "c = b\<lparr>status := status c, progress := progress c\<rparr>" using that by simp
    have "t_id b = t_id a" by (subst ab) simp
    moreover have "c = a\<lparr>status := status c, progress := progress c\<rparr>"
      by (subst bc, subst ab) simp
    ultimately show ?thesis using that by auto
  qed
  have "list_all2 ?R1 (tasks s) (tasks (update_dependent dep s))"
    by (rule update_dependent_rel)
  moreover have "list_all2 ?R2 (tasks (update_dependent dep s))
                   (tasks (fold update_dependent deps (update_dependent dep s)))"
    by (rule Cons.IH)
  ultimately have "list_all2 ?R (tasks s)
                     (tasks (fold update_dependent deps (update_dependent dep s)))"
    using step by (rule list_all2_trans[rotated])
  then show ?case by simp
qed

lemma list_all2_find_same:
  assumes "list_all2 R xs ys"
    and "\<And>a b. R a b \<Longrightarrow> P b = P a \<and> (P a \<longrightarrow> b = a)"
  shows "find P ys = find P xs" and "filter P ys = filter P xs"
  using assms by (induction rule: list_all2_induct) auto

subsection \<open>Status deriver\<close>

lemma list_ex_other_status:
  "k \<noteq> i \<Longrightarrow>
   list_ex (\<lambda>u. t_id u = k \<and> status u \<noteq> ''done'')
     (map (\<lambda>t. if t_id t = i then t\<lparr>status := v\<rparr> else t) ts)
   = list_ex (\<lambda>u. t_id u = k \<and> status u \<noteq> ''done'') ts"
  by (induction ts) auto

lemma unmet_dependency_set_status:
  assumes "\<forall>d \<in> set (dependencies s). d_task_id d = t_id t \<longrightarrow> d_depends_on_id d \<noteq> i"
  shows "unmet_dependency (set_status i v s) (t\<lparr>status := w\<rparr>) = unmet_dependency s t"
proof -
  have "list_ex (\<lambda>d. d_task_id d = t_id t \<and>
                  list_ex (\<lambda>u. t_id u = d_depends_on_id d \<and> status u \<noteq> ''done'')
                    (map (\<lambda>t. if t_id t = i then t\<lparr>status := v\<rparr> else t) (tasks s)))
          (dependencies s)
      = list_ex (\<lambda>d. d_task_id d = t_id t \<and>
                  list_ex (\<lambda>u. t_id u = d_depends_on_id d \<and> status u \<noteq> ''done'') (tasks s))
          (dependencies s)"
    using assms by (intro list_ex_cong refl) (auto simp: list_ex_other_status)
  then show ?thesis
    by (simp add: unmet_dependency_def)
qed

lemma find_modify:
  assumes "\<And>t. t_id (f t) = t_id t"
  shows "find (\<lambda>t. t_id t = i) (map (\<lambda>t. if t_id t = i then f t else t) ts)
         = map_option f (find (\<lambda>t. t_id t = i) ts)"
  using assms by (induction ts) auto

lemma get_task_set_status:
  "get_task s i = Some t \<Longrightarrow> get_task (set_status i v s) i = Some (t\<lparr>status := v\<rparr>)"
  by (simp add: get_task_def find_modify)

subsection \<open>Dependency edges\<close>

lemma find_snoc:
  "find P (xs @ [x]) = (case find P xs of Some y \<Rightarrow> Some y | None \<Rightarrow> if P x then Some x else None)"
  by (induction xs) auto

lemma add_dependency_existing:
  assumes "task_id \<noteq> 0" "depends_on_id \<noteq> 0" "task_id \<noteq> depends_on_id"
    and "find (\<lambda>d. d_task_id d = task_id \<and> d_depends_on_id d = depends_on_id) (dependencies s) = Some e"
  shows "api_add_dependency s task_id depends_on_id = (s, Inr (DependencyResponse e))"
  using assms by (simp add: api_add_dependency_def)

lemma add_dependency_new:
  assumes "task_id \<noteq> 0" "depends_on_id \<noteq> 0" "task_id \<noteq> depends_on_id"
    and "find (\<lambda>d. d_task_id d = task_id \<and> d_depends_on_id d = depends_on_id) (dependencies s) = None"
    and "dep = \<lparr>d_id = next_id (map d_id (dependencies s)), d_task_id = task_id,
                 d_depends_on_id = depends_on_id\<rparr>"
  shows "dependencies (fst (api_add_dependency s task_id depends_on_id)) = dependencies s @ [dep]"
    and "snd (api_add_dependency s task_id depends_on_id) = Inl (NotFound [])
         \<or> snd (api_add_dependency s task_id depends_on_id) = Inr (DependencyResponse dep)"
  using assms by (simp_all add: api_add_dependency_def Let_def split: option.splits)

lemma add_dependency_invalid:
  assumes "task_id = 0 \<or> depends_on_id = 0 \<or> task_id = depends_on_id"
  shows "api_add_dependency s task_id depends_on_id = (s, Inl (BadRequest ''invalid dependency''))"
  using assms by (simp add: api_add_dependency_def)

lemma add_dependency_pairs:
  "distinct (edge_pairs s) \<Longrightarrow> distinct (edge_pairs (fst (api_add_dependency s task_id depends_on_id)))"
proof (cases "task_id = 0 \<or> depends_on_id = 0 \<or> task_id = depends_on_id")
  case True
  assume "distinct (edge_pairs s)"
  then show ?thesis using add_dependency_invalid[OF True] by simp
next
  case False
  assume d: "distinct (edge_pairs s)"
  show ?thesis
  proof (cases "find (\<lambda>d. d_task_id d = task_id \<and> d_depends_on_id d = depends_on_id) (dependencies s)")
    case (Some e)
    then show ?thesis using False d by (simp add: add_dependency_existing)
  next
    case None
    then have "(task_id, depends_on_id) \<notin> set (edge_pairs s)"
      by (auto simp: find_None_iff edge_pairs_def)
    then show ?thesis
      using False d add_dependency_new(1)[OF _ _ _ None refl, of ]
      by (simp add: edge_pairs_def)
  qed
qed

lemma distinct_pairs_filter:
  "distinct (map f xs) \<Longrightarrow> distinct (map f (filter P xs))"
  by (simp add: distinct_map_filter)

lemma set_subtasks_done_sel [simp]:
  "tasks (set_subtasks_done i b s) = tasks s"
  "dependencies (set_subtasks_done i b s) = dependencies s"
  by (simp_all add: set_subtasks_done_def)

lemma handler_dependencies:
  "dependencies (fst (api_tasks s a b c)) = dependencies s"
  "dependencies (fst (api_update_task_status s today i st)) = dependencies s"
  "dependencies (fst (api_edit_task s i ti w)) = dependencies s"
  "dependencies (fst (api_create_subtask s today i x)) = dependencies s"
  "dependencies (fst (api_toggle_subtask s today j)) = dependencies s"
  "dependencies (fst (api_delete_subtask s today j)) = dependencies s"
  by (simp_all add: api_tasks_def api_update_task_status_def api_edit_task_def
      api_create_subtask_def api_toggle_subtask_def api_delete_subtask_def Let_def
      split: option.splits sum.splits)

lemma fold_enforce_dependencies:
  "dependencies (fold (\<lambda>i x. enforce_blocking_status i (recompute_progress i x)) is s)
     = dependencies s"
  by (induction "is" arbitrary: s) simp_all

lemma delete_handlers_pairs:
  "distinct (edge_pairs s) \<Longrightarrow> distinct (edge_pairs (fst (api_delete_task s i)))"
  "distinct (edge_pairs s) \<Longrightarrow> distinct (edge_pairs (fst (api_delete_dependency s k)))"
  by (simp_all add: api_delete_task_def api_delete_dependency_def Let_def edge_pairs_def
      fold_enforce_dependencies distinct_map_filter split: option.splits)

lemma handle_pairs:
  "distinct (edge_pairs s) \<Longrightarrow> distinct (edge_pairs (fst (handle today r s)))"
  by (cases r)
     (simp_all add: add_dependency_pairs delete_handlers_pairs,
      simp_all add: edge_pairs_def handler_dependencies)

lemma run_pairs:
  "distinct (edge_pairs s) \<Longrightarrow> distinct (edge_pairs (run rs s))"
  by (induction rs arbitrary: s) (auto simp: handle_pairs)

section \<open>The claims\<close>

subsection \<open>C1: blocked exactly when a dependency is unmet\<close>

text \<open>
  C1 as stated: in every store that the public mutation operations reach, every task is blocked
  if and only if it has a dependency edge to a task that is not done and is itself not done.
  This fails on the run \<open>ex_requests\<close>: the cascade from C promotes its direct dependent B from
  blocked to done and does not visit A, which depends on B; A stays blocked with its only
  dependency done.
\<close>

theorem blocked_invariant_fails_after_cascade:
  "\<not> blocked_invariant (run ex_requests empty_db)"
  by code_simp

text \<open>
  C1, amended: right after the Status Deriver has run on a task T that has no edge to itself,
  T is blocked if and only if T has a dependency edge to a task that is not done and T is itself
  not done. The property is established for the task the deriver runs on; it is not an
  invariant of every reachable store.
\<close>

theorem enforce_blocking_status_blocked_iff:
  assumes "get_task s i = Some t"
    and "\<forall>d \<in> set (dependencies s). d_task_id d = i \<longrightarrow> d_depends_on_id d \<noteq> i"
  shows "\<exists>t'. get_task (enforce_blocking_status i s) i = Some t'
            \<and> blocked_iff_unmet (enforce_blocking_status i s) t'"
proof -
  have id: "t_id t = i" using assms(1) by (simp add: get_task_SomeD)
  have noself: "\<forall>d \<in> set (dependencies s). d_task_id d = t_id t \<longrightarrow> d_depends_on_id d \<noteq> i"
    using assms(2) id by simp
  note unmet = unmet_dependency_set_status[OF noself]
  consider (block) "status t \<noteq> ''done''" "unmet_dependency s t"
    | (unblock) "status t = ''blocked''" "\<not> unmet_dependency s t"
    | (keep) "\<not> (status t \<noteq> ''done'' \<and> unmet_dependency s t)"
        "\<not> (status t = ''blocked'' \<and> \<not> unmet_dependency s t)"
    by blast
  then show ?thesis
  proof cases
    case block
    then show ?thesis
      using assms(1) get_task_set_status[OF assms(1)] unmet
      by (simp add: enforce_blocking_status_def has_blocking_iff_unmet blocked_iff_unmet_def)
  next
    case unblock
    then show ?thesis
      using assms(1) get_task_set_status[OF assms(1)] unmet
      by (simp add: enforce_blocking_status_def has_blocking_iff_unmet blocked_iff_unmet_def)
  next
    case keep
    then show ?thesis
      using assms(1)
      by (auto simp: enforce_blocking_status_def has_blocking_iff_unmet blocked_iff_unmet_def)
  qed
qed

theorem enforce_blocking_status_blocked_iff_witness:
  "get_task ex_blocked 2 = Some (ex_task 2 ''todo'' 0)
   \<and> list_all (\<lambda>d. d_task_id d = 2 \<longrightarrow> d_depends_on_id d \<noteq> 2) (dependencies ex_blocked)
   \<and> (\<exists>t'. get_task (enforce_blocking_status 2 ex_blocked) 2 = Some t'
          \<and> blocked_iff_unmet (enforce_blocking_status 2 ex_blocked) t')"
proof -
  have h1: "get_task ex_blocked 2 = Some (ex_task 2 ''todo'' 0)"
    by (simp add: ex_blocked_def ex_task_def get_task_def)
  have h2: "\<forall>d \<in> set (dependencies ex_blocked). d_task_id d = 2 \<longrightarrow> d_depends_on_id d \<noteq> 2"
    by (simp add: ex_blocked_def)
  show ?thesis
    using h1 h2 enforce_blocking_status_blocked_iff [OF h1 h2] by (simp add: list_all_iff)
qed

subsection \<open>C2: completing a task with an unmet dependency\<close>

text \<open>
  C2: when a task T has a dependency edge to a task whose status is not done, the explicit
  status transition of T to done fails with the error of a blocked operation (a bad request
  with the description below), and the store is unchanged by the call.
\<close>

theorem complete_with_unmet_dependency_fails:
  assumes "get_task s task_id = Some t"
    and "d \<in> set (dependencies s)" and "d_task_id d = task_id"
    and "get_task s (d_depends_on_id d) = Some u" and "status u \<noteq> ''done''"
  shows "api_update_task_status s today task_id ''done'' =
           (s, Inl (BadRequest ''Task has incomplete dependencies''))"
proof -
  have "unmet_dependency s t"
    using assms get_task_SomeD[OF assms(1)] get_task_SomeD[OF assms(4)]
    by (auto simp: unmet_dependency_def list_ex_iff)
  then show ?thesis
    using assms(1) by (simp add: api_update_task_status_def has_blocking_iff_unmet)
qed

theorem complete_with_unmet_dependency_fails_witness:
  "get_task ex_blocked 2 = Some (ex_task 2 ''todo'' 0)
   \<and> \<lparr>d_id = 1, d_task_id = 2, d_depends_on_id = 1\<rparr> \<in> set (dependencies ex_blocked)
   \<and> get_task ex_blocked 1 = Some (ex_task 1 ''todo'' 0)
   \<and> status (ex_task 1 ''todo'' 0) \<noteq> ''done''
   \<and> api_update_task_status ex_blocked ex_today 2 ''done'' =
       (ex_blocked, Inl (BadRequest ''Task has incomplete dependencies''))"
proof -
  let ?d = "\<lparr>d_id = 1, d_task_id = 2, d_depends_on_id = 1\<rparr>"
  have h1: "get_task ex_blocked 2 = Some (ex_task 2 ''todo'' 0)"
    by (simp add: ex_blocked_def ex_task_def get_task_def)
  have h2: "?d \<in> set (dependencies ex_blocked)"
    by (simp add: ex_blocked_def)
  have h3: "d_task_id ?d = 2"
    by simp
  have h4: "get_task ex_blocked (d_depends_on_id ?d) = Some (ex_task 1 ''todo'' 0)"
    by (simp add: ex_blocked_def ex_task_def get_task_def)
  have h5: "status (ex_task 1 ''todo'' 0) \<noteq> ''done''"
    by (simp add: ex_task_def)
  show ?thesis
    using h1 h2 h4 h5 complete_with_unmet_dependency_fails [OF h1 h2 h3 h4 h5, of ex_today]
    by simp
qed

subsection \<open>C3: no change is visible after a failure\<close>

text \<open>
  C3 says that a failing operation leaves the store as it was, and in particular that adding an
  edge whose \<^verbatim>\<open>task_id\<close> names no task fails without persisting the edge. The handler commits
  the new edge before it looks the task up: on the empty store the request for the edge from
  task 1 to task 2 fails with the 404 error, and the edge is in the store.
\<close>

theorem add_dependency_missing_task_persists_edge:
  "api_add_dependency empty_db 1 2 =
     (\<lparr>tasks = [], subtasks = [],
       dependencies = [\<lparr>d_id = 1, d_task_id = 1, d_depends_on_id = 2\<rparr>]\<rparr>,
      Inl (NotFound []))"
  by code_simp

subsection \<open>C4: the Progress Calculator\<close>

text \<open>
  C4 as stated: with \<open>N > 0\<close> subtasks of which \<open>done_count\<close> are done the calculator returns
  \<^verbatim>\<open>round(100 * done_count / N, 1)\<close>. The source computes \<^verbatim>\<open>round(100.0 * (done / total), 1)\<close>:
  the quotient is rounded to a double before it is multiplied by 100. For 23 done subtasks of 80
  the quotient is just below 0.2875, the product is 28.749999999999996 and the result is 28.7,
  where the formula of the claim gives 28.8 (\<^verbatim>\<open>100 * 23 / 80\<close> is exactly 28.75, a tie that goes
  to the even digit).
\<close>

theorem progress_differs_from_spec_formula:
  "length (filter (\<lambda>x. st_task_id x = 1) (subtasks ex_eighty)) = 80
   \<and> length (filter (\<lambda>x. st_task_id x = 1 \<and> st_done x) (subtasks ex_eighty)) = 23
   \<and> compute_task_progress ex_eighty (ex_task 1 ''in_progress'' 0) = fl (287 / 10)
   \<and> spec_progress 23 80 = fl (288 / 10)
   \<and> fl (287 / 10) \<noteq> fl (288 / 10)"
  by code_simp

text \<open>
  C4, amended: for a task with \<open>n > 0\<close> subtasks of which \<open>done_count\<close> are done the calculator
  returns \<^verbatim>\<open>round(100.0 * (done_count / n), 1)\<close> in double arithmetic, the quotient being rounded
  before the multiplication; with no subtasks it returns 100.0 if the status is done and 0.0
  otherwise.
\<close>

theorem compute_task_progress_value:
  assumes "n = length (filter (\<lambda>x. st_task_id x = t_id t) (subtasks s))"
    and "done_count = length (filter (\<lambda>x. st_task_id x = t_id t \<and> st_done x) (subtasks s))"
  shows "compute_task_progress s t =
           (if n = 0 then (if status t = ''done'' then 100 else 0)
            else py_round1 (fl (100 * fl (of_nat done_count / of_nat n))))"
  using assms by (simp add: compute_task_progress_def Let_def)

theorem compute_task_progress_value_witness:
  "80 = length (filter (\<lambda>x. st_task_id x = t_id (ex_task 1 ''in_progress'' 0)) (subtasks ex_eighty))
   \<and> 23 = length (filter (\<lambda>x. st_task_id x = t_id (ex_task 1 ''in_progress'' 0) \<and> st_done x)
                    (subtasks ex_eighty))
   \<and> compute_task_progress ex_eighty (ex_task 1 ''in_progress'' 0)
       = py_round1 (fl (100 * fl (23 / 80)))
   \<and> compute_task_progress ex_chain (ex_task 1 ''done'' 100) = 100
   \<and> compute_task_progress ex_chain (ex_task 2 ''blocked'' 0) = 0"
proof -
  let ?t = "ex_task 1 ''in_progress'' 0"
  have h1: "80 = length (filter (\<lambda>x. st_task_id x = t_id ?t) (subtasks ex_eighty))"
    by code_simp
  have h2: "23 = length (filter (\<lambda>x. st_task_id x = t_id ?t \<and> st_done x) (subtasks ex_eighty))"
    by code_simp
  have h3: "0 = length (filter (\<lambda>x. st_task_id x = t_id t) (subtasks ex_chain))" for t
    by (simp add: ex_chain_def)
  have h4: "0 = length (filter (\<lambda>x. st_task_id x = t_id t \<and> st_done x) (subtasks ex_chain))" for t
    by (simp add: ex_chain_def)
  show ?thesis
    using h1 h2 compute_task_progress_value [OF h1 h2]
      compute_task_progress_value [OF h3 h4, of "ex_task 1 ''done'' 100"]
      compute_task_progress_value [OF h3 h4, of "ex_task 2 ''blocked'' 0"]
    by (simp add: ex_task_def)
qed

subsection \<open>C5: the cascade visits direct dependents only\<close>

text \<open>
  C5: the cascade rooted at a changed task modifies only tasks that have a dependency edge
  pointing directly at the changed task. Every row of a task \<open>i\<close> without such an edge is left as
  it was, also when \<open>i\<close> depends on the changed task through other tasks; the subtasks and the
  edges are not touched at all.
\<close>

theorem cascade_direct_dependents_only:
  assumes "\<forall>d \<in> set (dependencies s). d_depends_on_id d = changed_task_id \<longrightarrow> d_task_id d \<noteq> i"
  shows "get_task (update_dependents_status changed_task_id s) i = get_task s i
       \<and> filter (\<lambda>t. t_id t = i) (tasks (update_dependents_status changed_task_id s))
           = filter (\<lambda>t. t_id t = i) (tasks s)
       \<and> subtasks (update_dependents_status changed_task_id s) = subtasks s
       \<and> dependencies (update_dependents_status changed_task_id s) = dependencies s"
proof -
  let ?deps = "filter (\<lambda>d. d_depends_on_id d = changed_task_id) (dependencies s)"
  let ?R = "\<lambda>a b. (t_id a \<notin> d_task_id ` set ?deps \<longrightarrow> b = a) \<and>
                    b = a\<lparr>status := status b, progress := progress b\<rparr>"
  have rel: "list_all2 ?R (tasks s) (tasks (fold update_dependent ?deps s))"
    by (rule fold_update_dependent_rel)
  have not_dep: "i \<notin> d_task_id ` set ?deps"
    using assms by auto
  have same: "(t_id b = i) = (t_id a = i) \<and> (t_id a = i \<longrightarrow> b = a)" if "?R a b" for a b
  proof -
    have ab: "b = a\<lparr>status := status b, progress := progress b\<rparr>" using that by simp
    have "t_id b = t_id a" by (subst ab) simp
    then show ?thesis using that not_dep by auto
  qed
  show ?thesis
    using list_all2_find_same[OF rel same]
    by (simp add: get_task_def update_dependents_status_def)
qed


theorem cascade_direct_dependents_only_witness:
  "list_all (\<lambda>d. d_depends_on_id d = 1 \<longrightarrow> d_task_id d \<noteq> 3) (dependencies ex_chain)
   \<and> get_task (update_dependents_status 1 ex_chain) 3 = Some (ex_task 3 ''blocked'' 0)
   \<and> get_task (update_dependents_status 1 ex_chain) 2 = Some (ex_task 2 ''todo'' 0)"
proof -
  have h: "\<forall>d \<in> set (dependencies ex_chain). d_depends_on_id d = 1 \<longrightarrow> d_task_id d \<noteq> 3"
    by (simp add: ex_chain_def)
  have a: "get_task ex_chain 3 = Some (ex_task 3 ''blocked'' 0)"
    by (simp add: ex_chain_def ex_task_def get_task_def)
  have b: "get_task (update_dependents_status 1 ex_chain) 2 = Some (ex_task 2 ''todo'' 0)"
    by code_simp
  show ?thesis
    using h a b cascade_direct_dependents_only [OF h] by (simp add: list_all_iff)
qed

subsection \<open>C6: adding an edge twice\<close>

text \<open>
  C6: adding a dependency edge is idempotent. After a request to add the edge from \<open>task_id\<close> to
  \<open>depends_on_id\<close> (a pair the handler accepts), the store holds an edge \<open>e\<close> with that pair, and
  a second request with the same pair leaves the store as it is and returns \<open>e\<close>, which is the
  edge the first request returned if it returned one. The handler never adds a second edge for
  a pair, so in every store that the public operations reach from the empty one the pairs of
  the edges are distinct.
\<close>

theorem add_dependency_idempotent:
  "(task_id \<noteq> 0 \<and> depends_on_id \<noteq> 0 \<and> task_id \<noteq> depends_on_id \<longrightarrow>
      (\<exists>e. find (\<lambda>d. d_task_id d = task_id \<and> d_depends_on_id d = depends_on_id)
              (dependencies (fst (api_add_dependency s task_id depends_on_id))) = Some e
          \<and> api_add_dependency (fst (api_add_dependency s task_id depends_on_id))
                task_id depends_on_id
              = (fst (api_add_dependency s task_id depends_on_id), Inr (DependencyResponse e))
          \<and> (\<forall>r. snd (api_add_dependency s task_id depends_on_id) = Inr r \<longrightarrow>
                 r = DependencyResponse e)))
   \<and> (distinct (edge_pairs s) \<longrightarrow>
        distinct (edge_pairs (fst (api_add_dependency s task_id depends_on_id))))
   \<and> distinct (edge_pairs (run rs empty_db))"
proof -
  let ?P = "\<lambda>d. d_task_id d = task_id \<and> d_depends_on_id d = depends_on_id"
  let ?s1 = "fst (api_add_dependency s task_id depends_on_id)"
  let ?r1 = "snd (api_add_dependency s task_id depends_on_id)"
  have first: "\<exists>e. find ?P (dependencies ?s1) = Some e
                 \<and> api_add_dependency ?s1 task_id depends_on_id = (?s1, Inr (DependencyResponse e))
                 \<and> (\<forall>r. ?r1 = Inr r \<longrightarrow> r = DependencyResponse e)"
    if valid: "task_id \<noteq> 0" "depends_on_id \<noteq> 0" "task_id \<noteq> depends_on_id"
  proof (cases "find ?P (dependencies s)")
    case (Some e)
    then have "api_add_dependency s task_id depends_on_id = (s, Inr (DependencyResponse e))"
      using valid by (simp add: add_dependency_existing)
    with Some show ?thesis by simp
  next
    case None
    define dep where "dep = \<lparr>d_id = next_id (map d_id (dependencies s)), d_task_id = task_id,
                             d_depends_on_id = depends_on_id\<rparr>"
    have deps: "dependencies ?s1 = dependencies s @ [dep]"
      using add_dependency_new(1)[OF valid None dep_def] .
    have res: "?r1 = Inl (NotFound []) \<or> ?r1 = Inr (DependencyResponse dep)"
      using add_dependency_new(2)[OF valid None dep_def] .
    have found: "find ?P (dependencies ?s1) = Some dep"
      using None by (simp add: deps find_snoc dep_def)
    have "api_add_dependency ?s1 task_id depends_on_id = (?s1, Inr (DependencyResponse dep))"
      using valid found by (rule add_dependency_existing)
    with found res show ?thesis by auto
  qed
  have "distinct (edge_pairs empty_db)"
    by (simp add: edge_pairs_def empty_db_def)
  then have "distinct (edge_pairs (run rs empty_db))"
    by (rule run_pairs)
  with first add_dependency_pairs show ?thesis
    by blast
qed

theorem add_dependency_idempotent_witness:
  "api_add_dependency (fst (api_add_dependency ex_dangling 1 2)) 1 2
     = (fst (api_add_dependency ex_dangling 1 2),
        Inr (DependencyResponse \<lparr>d_id = 2, d_task_id = 1, d_depends_on_id = 2\<rparr>))
   \<and> snd (api_add_dependency ex_dangling 1 2)
       = Inr (DependencyResponse \<lparr>d_id = 2, d_task_id = 1, d_depends_on_id = 2\<rparr>)
   \<and> edge_pairs (fst (api_add_dependency ex_dangling 1 2)) = [(2, 7), (1, 2)]
   \<and> distinct (edge_pairs (run ex_requests empty_db))"
proof -
  let ?s1 = "fst (api_add_dependency ex_dangling 1 2)"
  let ?dep = "\<lparr>d_id = 2, d_task_id = 1, d_depends_on_id = 2\<rparr>"
  have valid: "(1::int) \<noteq> 0 \<and> (2::int) \<noteq> 0 \<and> (1::int) \<noteq> 2"
    by simp
  have found: "find (\<lambda>d. d_task_id d = 1 \<and> d_depends_on_id d = 2) (dependencies ?s1) = Some ?dep"
    by code_simp
  have r1: "snd (api_add_dependency ex_dangling 1 2) = Inr (DependencyResponse ?dep)"
    by code_simp
  have pairs: "edge_pairs ?s1 = [(2, 7), (1, 2)]"
    by code_simp
  from add_dependency_idempotent [of 1 2 ex_dangling ex_requests] valid
  obtain e where e: "find (\<lambda>d. d_task_id d = 1 \<and> d_depends_on_id d = 2) (dependencies ?s1) = Some e"
      "api_add_dependency ?s1 1 2 = (?s1, Inr (DependencyResponse e))"
    and reach: "distinct (edge_pairs (run ex_requests empty_db))"
    by blast
  from e(1) found have "e = ?dep"
    by simp
  with e(2) r1 pairs reach show ?thesis
    by simp
qed

subsection \<open>C7: weeks to dates\<close>

text \<open>
  C7 as stated: for every task with week \<open>w > 0\<close> the mapping sets the start date to the plan
  start plus \<open>7 * (w - 1)\<close> days and the end date six days later. Python's calendar ends on
  9999-12-31: with the plan start 2025-08-25 and week 416082 the end date would be two days
  past it, the second date addition raises, no dates are set, and the request that creates
  such a task fails and stores nothing.
\<close>

theorem set_dates_for_week_overflows:
  "set_dates_for_week (ex_task 1 ''todo'' 0\<lparr>week := Some 416082\<rparr>) DEFAULT_START_DATE
     = Inl OverflowError
   \<and> DEFAULT_START_DATE + 7 * (416082 - 1) + 6 = MAXORDINAL + 2
   \<and> api_tasks empty_db ''x'' [] 416082 = (empty_db, Inl OverflowError)"
  by code_simp

text \<open>
  C7, amended: for a task with week \<open>w > 0\<close> and a plan start such that the end date, the plan
  start plus \<open>7 * (w - 1) + 6\<close> days, is not past 9999-12-31, the mapping sets the start date to
  the plan start plus \<open>7 * (w - 1)\<close> days and the end date to the start date plus 6 days; when
  the end date would be past 9999-12-31 it raises and sets nothing; when \<open>w \<le> 0\<close> it leaves the
  task as it is. Week 3 with the plan start 2025-08-25 gives the start date 2025-09-08 and the
  end date 2025-09-14.
\<close>

theorem set_dates_for_week_mapping:
  "(week t = Some w \<and> 0 < w \<and> 0 < plan_start \<and> plan_start + 7 * (w - 1) + 6 \<le> MAXORDINAL \<longrightarrow>
      set_dates_for_week t plan_start =
        Inr (t\<lparr>start_date := Some (plan_start + 7 * (w - 1)),
                end_date := Some (plan_start + 7 * (w - 1) + 6)\<rparr>))
   \<and> (week t = Some w \<and> 0 < w \<and> 0 < plan_start \<and> plan_start \<le> MAXORDINAL
        \<and> MAXORDINAL < plan_start + 7 * (w - 1) + 6 \<longrightarrow>
      set_dates_for_week t plan_start = Inl OverflowError)
   \<and> (week t = Some w \<and> w \<le> 0 \<longrightarrow> set_dates_for_week t plan_start = Inr t)
   \<and> set_dates_for_week (t\<lparr>week := Some 3\<rparr>) (ymd2ord 2025 8 25) =
       Inr (t\<lparr>week := Some 3, start_date := Some (ymd2ord 2025 9 8),
               end_date := Some (ymd2ord 2025 9 14)\<rparr>)"
proof -
  have d: "ymd2ord 2025 8 25 = 739488" "ymd2ord 2025 9 8 = 739502" "ymd2ord 2025 9 14 = 739508"
    by (simp_all add: ymd2ord_def days_before_year_def days_before_month_def is_leap_def)
  have in_range: "set_dates_for_week t plan_start =
        Inr (t\<lparr>start_date := Some (plan_start + 7 * (w - 1)),
                end_date := Some (plan_start + 7 * (w - 1) + 6)\<rparr>)"
    if "week t = Some w" "0 < w" "0 < plan_start" "plan_start + 7 * (w - 1) + 6 \<le> MAXORDINAL"
    using that
    by (simp add: set_dates_for_week_def date_add_def MAXORDINAL_def Let_def algebra_simps)
  have out_of_range: "set_dates_for_week t plan_start = Inl OverflowError"
    if "week t = Some w" "0 < w" "0 < plan_start" "plan_start \<le> MAXORDINAL"
      "MAXORDINAL < plan_start + 7 * (w - 1) + 6"
    using that
    by (auto simp: set_dates_for_week_def date_add_def MAXORDINAL_def Let_def algebra_simps
        split: sum.splits)
  have unscheduled: "set_dates_for_week t plan_start = Inr t" if "week t = Some w" "w \<le> 0"
    using that by (simp add: set_dates_for_week_def)
  have scenario: "set_dates_for_week (t\<lparr>week := Some 3\<rparr>) (ymd2ord 2025 8 25) =
       Inr (t\<lparr>week := Some 3, start_date := Some (ymd2ord 2025 9 8),
               end_date := Some (ymd2ord 2025 9 14)\<rparr>)"
    by (simp add: d set_dates_for_week_def date_add_def MAXORDINAL_def Let_def)
  from in_range out_of_range unscheduled scenario show ?thesis
    by blast
qed

theorem set_dates_for_week_mapping_witness:
  "set_dates_for_week (ex_task 1 ''todo'' 0\<lparr>week := Some 3\<rparr>) DEFAULT_START_DATE =
       Inr (ex_task 1 ''todo'' 0\<lparr>week := Some 3, start_date := Some (DEFAULT_START_DATE + 14),
                                 end_date := Some (DEFAULT_START_DATE + 20)\<rparr>)
   \<and> set_dates_for_week (ex_task 1 ''todo'' 0\<lparr>week := Some 416082\<rparr>) DEFAULT_START_DATE =
       Inl OverflowError
   \<and> set_dates_for_week (ex_task 1 ''todo'' 0\<lparr>week := Some (- 2)\<rparr>) DEFAULT_START_DATE =
       Inr (ex_task 1 ''todo'' 0\<lparr>week := Some (- 2)\<rparr>)"
proof -
  have d: "DEFAULT_START_DATE = 739488"
    by (simp add: DEFAULT_START_DATE_def ymd2ord_def days_before_year_def
        days_before_month_def is_leap_def)
  have w3: "week (ex_task 1 ''todo'' 0\<lparr>week := Some 3\<rparr>) = Some 3
            \<and> (0::int) < 3 \<and> 0 < DEFAULT_START_DATE
            \<and> DEFAULT_START_DATE + 7 * (3 - 1) + 6 \<le> MAXORDINAL"
    by (simp add: d MAXORDINAL_def)
  have big: "week (ex_task 1 ''todo'' 0\<lparr>week := Some 416082\<rparr>) = Some 416082
            \<and> (0::int) < 416082 \<and> 0 < DEFAULT_START_DATE \<and> DEFAULT_START_DATE \<le> MAXORDINAL
            \<and> MAXORDINAL < DEFAULT_START_DATE + 7 * (416082 - 1) + 6"
    by (simp add: d MAXORDINAL_def)
  have neg: "week (ex_task 1 ''todo'' 0\<lparr>week := Some (- 2)\<rparr>) = Some (- 2) \<and> (- 2::int) \<le> 0"
    by simp
  show ?thesis
    using w3 big neg
      set_dates_for_week_mapping
        [of "ex_task 1 ''todo'' 0\<lparr>week := Some 3\<rparr>" 3 DEFAULT_START_DATE]
      set_dates_for_week_mapping
        [of "ex_task 1 ''todo'' 0\<lparr>week := Some 416082\<rparr>" 416082 DEFAULT_START_DATE]
      set_dates_for_week_mapping
        [of "ex_task 1 ''todo'' 0\<lparr>week := Some (- 2)\<rparr>" "- 2" DEFAULT_START_DATE]
    by simp
qed

subsection \<open>C8: deleting the last open subtask\<close>

text \<open>
  C8 says that when the deletion of a subtask brings the progress of an unblocked task to
  100.0, the handler sets the status to done and sets both \<^verbatim>\<open>completed_at\<close> and \<^verbatim>\<open>started_at\<close>
  to today when they are unset. The handler sets \<^verbatim>\<open>completed_at\<close> only: in \<open>ex_legacy\<close> the
  deletion of the open subtask completes the task, and \<^verbatim>\<open>started_at\<close> stays null. The
  handlers of the status transition and of the subtask toggle set both fields when they
  complete a task.
\<close>

theorem delete_subtask_leaves_started_at_unset:
  "api_delete_subtask ex_legacy ex_today 2 =
     (\<lparr>tasks = [(ex_task 1 ''done'' 100)\<lparr>completed_at := Some ex_today\<rparr>],
       subtasks = [\<lparr>st_id = 1, st_task_id = 1, st_title = ''a'', st_done = True\<rparr>],
       dependencies = []\<rparr>,
      Inr (TaskOptResponse (Some ((ex_task 1 ''done'' 100)\<lparr>completed_at := Some ex_today\<rparr>))))
   \<and> started_at ((ex_task 1 ''done'' 100)\<lparr>completed_at := Some ex_today\<rparr>) = None"
  by code_simp

subsection \<open>C9: dangling edges do not block\<close>

text \<open>
  C9: when every dependency edge of a task points at an id that matches no existing task, the
  Dependency Checker reports that the task is not blocked.
\<close>

theorem dangling_edges_do_not_block:
  assumes "\<forall>d \<in> set (dependencies s).
             d_task_id d = t_id t \<longrightarrow> get_task s (d_depends_on_id d) = None"
  shows "\<not> has_blocking_dependencies s t"
  using assms
  by (auto simp: has_blocking_iff_unmet unmet_dependency_def list_ex_iff get_task_None_iff)

theorem dangling_edges_do_not_block_witness:
  "list_all (\<lambda>d. d_task_id d = t_id (ex_task 2 ''todo'' 0) \<longrightarrow>
                   get_task ex_dangling (d_depends_on_id d) = None) (dependencies ex_dangling)
   \<and> filter (\<lambda>d. d_task_id d = 2) (dependencies ex_dangling) \<noteq> []
   \<and> \<not> has_blocking_dependencies ex_dangling (ex_task 2 ''todo'' 0)"
proof -
  have h: "\<forall>d \<in> set (dependencies ex_dangling).
             d_task_id d = t_id (ex_task 2 ''todo'' 0) \<longrightarrow>
             get_task ex_dangling (d_depends_on_id d) = None"
    by (simp add: ex_dangling_def ex_task_def get_task_def)
  have e: "filter (\<lambda>d. d_task_id d = 2) (dependencies ex_dangling) \<noteq> []"
    by (simp add: ex_dangling_def)
  show ?thesis
    using h e dangling_edges_do_not_block [OF h] by (simp add: list_all_iff)
qed

subsection \<open>C10: the cascade sets no timestamps\<close>

text \<open>
  C10: the cascade changes nothing of a task but its status and its progress, so when it
  promotes a formerly blocked dependent with progress 100.0 to done, \<^verbatim>\<open>completed_at\<close> and
  \<^verbatim>\<open>started_at\<close> are left as they were. In \<open>ex_promote\<close> the dependent goes from blocked to done
  and holds status done with both timestamps null.
\<close>

theorem cascade_status_and_progress_only:
  "list_all2 (\<lambda>a b. b = a\<lparr>status := status b, progress := progress b\<rparr>)
     (tasks s) (tasks (update_dependents_status changed_task_id s))
   \<and> subtasks (update_dependents_status changed_task_id s) = subtasks s
   \<and> dependencies (update_dependents_status changed_task_id s) = dependencies s
   \<and> get_task ex_promote 2 = Some (ex_task 2 ''blocked'' 100)
   \<and> get_task (update_dependents_status 1 ex_promote) 2 = Some (ex_task 2 ''done'' 100)
   \<and> started_at (ex_task 2 ''done'' 100) = None
   \<and> completed_at (ex_task 2 ''done'' 100) = None"
proof -
  let ?deps = "filter (\<lambda>d. d_depends_on_id d = changed_task_id) (dependencies s)"
  have "list_all2 (\<lambda>a b. (t_id a \<notin> d_task_id ` set ?deps \<longrightarrow> b = a) \<and>
                    b = a\<lparr>status := status b, progress := progress b\<rparr>)
          (tasks s) (tasks (fold update_dependent ?deps s))"
    by (rule fold_update_dependent_rel)
  then have "list_all2 (\<lambda>a b. b = a\<lparr>status := status b, progress := progress b\<rparr>)
          (tasks s) (tasks (fold update_dependent ?deps s))"
    by (rule list_all2_mono) simp
  then have frame:
    "list_all2 (\<lambda>a b. b = a\<lparr>status := status b, progress := progress b\<rparr>)
       (tasks s) (tasks (update_dependents_status changed_task_id s))"
    by (simp add: update_dependents_status_def)
  have before: "get_task ex_promote 2 = Some (ex_task 2 ''blocked'' 100)"
    by (simp add: ex_promote_def ex_task_def get_task_def)
  have after: "get_task (update_dependents_status 1 ex_promote) 2 = Some (ex_task 2 ''done'' 100)"
    by code_simp
  show ?thesis
    using frame before after by (simp add: ex_task_def)
qed


theorem cascade_status_and_progress_only_witness:
  "map started_at (tasks (update_dependents_status 1 ex_promote)) = [None, None]
   \<and> map completed_at (tasks (update_dependents_status 1 ex_promote)) = [None, None]
   \<and> map status (tasks (update_dependents_status 1 ex_promote)) = [''done'', ''done'']"
proof -
  have frame:
    "list_all2 (\<lambda>a b. b = a\<lparr>status := status b, progress := progress b\<rparr>)
       (tasks ex_promote) (tasks (update_dependents_status 1 ex_promote))"
    using cascade_status_and_progress_only [of ex_promote 1] by simp
  have "map status (tasks (update_dependents_status 1 ex_promote)) = [''done'', ''done'']"
    by code_simp
  moreover have "started_at b = started_at a \<and> completed_at b = completed_at a"
    if "b = a\<lparr>status := status b, progress := progress b\<rparr>" for a b :: task
    by (subst that, subst (2) that) simp
  then have "list_all2 (\<lambda>a b. started_at b = started_at a \<and> completed_at b = completed_at a)
       (tasks ex_promote) (tasks (update_dependents_status 1 ex_promote))"
    using frame by (rule list_all2_mono[rotated]) 
  then have "map started_at (tasks (update_dependents_status 1 ex_promote))
               = map started_at (tasks ex_promote)
           \<and> map completed_at (tasks (update_dependents_status 1 ex_promote))
               = map completed_at (tasks ex_promote)"
    by (induction rule: list_all2_induct) simp_all
  ultimately show ?thesis
    by (simp add: ex_promote_def ex_task_def)
qed

end
